theory Spec2Isabelle
  imports Complex_Main "HOL-Library.Word"
begin

section \<open>Bytes, buffers and errors\<close>

text \<open>
  A \<open>Buffer\<close> is a list of bytes. JavaScript numbers that the program only uses as
  integers are \<open>int\<close>; indices and lengths are \<open>nat\<close>. Every exception the
  program can raise is a value of \<open>error\<close>, and a function that can raise returns
  \<open>error + 'a\<close> with \<open>Inl\<close> for the exception.
\<close>

type_synonym byte = "8 word"

datatype error =
    DecodeNeedMoreData
  | DecodeTooLong
  | RangeError
  | ConnectionClosed
  | UnexpectedPacketId int
  | PayloadTruncated
  | MalformedPayload
  | FetchFailed
  | FetchAborted
  | JsonSyntaxError
  | TypeError

section \<open>VarInt codec (the \<open>leb\<close> dependency)\<close>

text \<open>
  Modelled from the spec: \<open>leb.encodeInt32\<close>. The npm package \<open>leb\<close> is imported
  by \<open>minecraft.ts\<close> and is not part of the sources. The spec describes the VarInt
  as a non-negative or 32-bit signed integer encoded as 1 to 5 bytes, 7 payload bits per
  byte, the high bit signalling continuation, least significant group first. The value is
  read as its 32-bit two's complement pattern (\<open>v mod 2 ^ 32\<close>); \<open>encodeUnsigned\<close>
  emits the groups of 7 bits of that pattern.
\<close>

function encodeUnsigned :: "int \<Rightarrow> byte list" where
  "encodeUnsigned n =
     (if n < 128 then [of_int n]
      else of_int (128 + n mod 128) # encodeUnsigned (n div 128))"
  by pat_completeness auto
termination
  by (relation "measure nat") auto

declare encodeUnsigned.simps [simp del]

definition encodeInt32 :: "int \<Rightarrow> byte list" where
  "encodeInt32 v = encodeUnsigned (v mod 2 ^ 32)"

text \<open>
  Modelled from the spec: \<open>leb.decodeInt32\<close>, absent for the same reason. The spec
  gives it two failures: the buffer runs out before a terminating byte
  (\<open>DecodeNeedMoreData\<close>), or more than 5 bytes are consumed (\<open>DecodeTooLong\<close>).
  \<open>decodeBytes i bs\<close> decodes from \<open>bs\<close> when \<open>i\<close> bytes of this VarInt are
  already consumed, and returns the value of the remaining groups with the number of
  bytes it consumed. The program reads the result's \<open>nextIndex\<close> as an index into the
  buffer, so \<open>decodeInt32\<close> returns \<open>index + consumed\<close>; the value is the 32-bit
  pattern read as a signed integer.
\<close>

fun decodeBytes :: "nat \<Rightarrow> byte list \<Rightarrow> error + (int \<times> nat)" where
  "decodeBytes i [] = Inl DecodeNeedMoreData"
| "decodeBytes i (b # bs) =
     (if 5 \<le> i then Inl DecodeTooLong
      else if uint b < 128 then Inr (uint b, 1)
      else (case decodeBytes (Suc i) bs of
              Inl e \<Rightarrow> Inl e
            | Inr (v, n) \<Rightarrow> Inr (uint b mod 128 + 128 * v, Suc n)))"

definition toInt32 :: "int \<Rightarrow> int" where
  "toInt32 u = (let w = u mod 2 ^ 32 in if w < 2 ^ 31 then w else w - 2 ^ 32)"

definition decodeInt32 :: "byte list \<Rightarrow> nat \<Rightarrow> error + (int \<times> nat)" where
  "decodeInt32 buffer index =
     (case decodeBytes 0 (drop index buffer) of
        Inl e \<Rightarrow> Inl e
      | Inr (v, n) \<Rightarrow> Inr (toInt32 v, index + n))"

section \<open>Packet building (\<open>minecraft.ts\<close>)\<close>

definition DEFAULT_PROTOCOL_VERSION :: int where
  "DEFAULT_PROTOCOL_VERSION = 765"

definition NEXT_STATE_STATUS :: int where
  "NEXT_STATE_STATUS = 1"

definition PACKET_HANDSHAKE :: int where
  "PACKET_HANDSHAKE = 0"

definition PACKET_STATUS_REQUEST :: int where
  "PACKET_STATUS_REQUEST = 0"

definition PACKET_STATUS_RESPONSE :: int where
  "PACKET_STATUS_RESPONSE = 0"

text \<open>
  A JavaScript string is modelled as a \<open>string\<close> whose characters are the code points
  0 to 255. \<open>Buffer.from(value, 'utf8')\<close> writes a code point below 128 as one byte and
  the others as two.
\<close>

definition utf8Char :: "char \<Rightarrow> byte list" where
  "utf8Char c =
     (let n = (of_char c :: nat)
      in if n < 128 then [of_nat n]
         else [of_nat (192 + n div 64), of_nat (128 + n mod 64)])"

definition utf8 :: "string \<Rightarrow> byte list" where
  "utf8 s = concat (map utf8Char s)"

definition encodeVarInt :: "int \<Rightarrow> byte list" where
  "encodeVarInt v = encodeInt32 v"

definition encodeString :: "string \<Rightarrow> byte list" where
  "encodeString v = (let encoded = utf8 v in encodeVarInt (int (length encoded)) @ encoded)"

text \<open>A \<open>Buffer\<close> is truthy even when empty, so only an absent payload takes the else branch.\<close>

definition buildPacket :: "int \<Rightarrow> byte list option \<Rightarrow> byte list" where
  "buildPacket packetId payload =
     (let packetIdBytes = encodeVarInt packetId;
          body = (case payload of Some p \<Rightarrow> packetIdBytes @ p | None \<Rightarrow> packetIdBytes)
      in encodeVarInt (int (length body)) @ body)"

text \<open>\<open>writeUInt16BE\<close> raises a range error outside 0..65535.\<close>

definition writeUInt16BE :: "int \<Rightarrow> error + byte list" where
  "writeUInt16BE v =
     (if v < 0 \<or> 65535 < v then Inl RangeError
      else Inr [of_int (v div 256), of_int (v mod 256)])"

definition buildHandshakePacket :: "string \<Rightarrow> int \<Rightarrow> int \<Rightarrow> error + byte list" where
  "buildHandshakePacket serverAddress port protocolVersion =
     (case writeUInt16BE port of
        Inl e \<Rightarrow> Inl e
      | Inr portBuffer \<Rightarrow>
          Inr (buildPacket PACKET_HANDSHAKE
                 (Some (encodeVarInt protocolVersion @ encodeString serverAddress
                        @ portBuffer @ encodeVarInt NEXT_STATE_STATUS))))"

definition buildStatusRequestPacket :: "byte list" where
  "buildStatusRequestPacket = buildPacket PACKET_STATUS_REQUEST None"

section \<open>Reading and parsing the response (\<open>minecraft.ts\<close>)\<close>

text \<open>
  \<open>subarray(start, end)\<close> of a typed array: a negative index counts from the end, both
  indices are clamped to the buffer, and an end before the start gives the empty view.
\<close>

definition clampIndex :: "int \<Rightarrow> int \<Rightarrow> int" where
  "clampIndex len i = (if i < 0 then max (len + i) 0 else min i len)"

definition subarray :: "byte list \<Rightarrow> int \<Rightarrow> int \<Rightarrow> byte list" where
  "subarray buffer start end =
     (let len = int (length buffer);
          from = clampIndex len start;
          to = clampIndex len end
      in take (nat (to - from)) (drop (nat from) buffer))"

text \<open>
  The transport's inbound side is the list of results of \<open>reader.read()\<close> before the
  stream reports \<open>done\<close>: \<open>Some chunk\<close> for a read with a value, \<open>None\<close> for a read
  without one. \<open>readStep\<close> is one iteration of the loop of \<open>readPacket\<close> after a read
  that was not \<open>done\<close>: the loop either goes on with the new buffer or returns a packet.
  Any exception of the length decode is caught and the loop continues. The loop's test for
  an undefined length or header size never holds once the decode has returned, and has no
  branch here. A stream that neither ends nor completes a packet leaves the loop waiting
  until the timeout; such a stream is not a list of reads and is outside this model.
\<close>

datatype reader_state = Accumulating "byte list" | Complete "byte list"

definition readStep :: "byte list \<Rightarrow> byte list option \<Rightarrow> reader_state" where
  "readStep buffer read =
     (case read of
        None \<Rightarrow> Accumulating buffer
      | Some chunk \<Rightarrow>
          (let buffer' = (if length buffer \<noteq> 0 then buffer @ chunk else chunk)
           in case decodeInt32 buffer' 0 of
                Inl e \<Rightarrow> Accumulating buffer'
              | Inr (packetLength, headerSize) \<Rightarrow>
                  (let total = int headerSize + packetLength
                   in if total \<le> int (length buffer')
                      then Complete (subarray buffer' 0 total)
                      else Accumulating buffer')))"

fun readLoop :: "byte list \<Rightarrow> byte list option list \<Rightarrow> error + byte list" where
  "readLoop buffer [] = Inl ConnectionClosed"
| "readLoop buffer (read # reads) =
     (case readStep buffer read of
        Accumulating buffer' \<Rightarrow> readLoop buffer' reads
      | Complete packet \<Rightarrow> Inr packet)"

definition readPacket :: "byte list option list \<Rightarrow> error + byte list" where
  "readPacket reads = readLoop [] reads"

text \<open>
  \<open>parseStatusPacket\<close> ends with \<open>JSON.parse\<close> of the payload text; the parser is the
  parameter \<open>jsonParse\<close>, \<open>None\<close> when it raises.
\<close>

definition parseStatusPacket :: "(byte list \<Rightarrow> 'a option) \<Rightarrow> byte list \<Rightarrow> error + 'a" where
  "parseStatusPacket jsonParse packet =
     (case decodeInt32 packet 0 of
        Inl e \<Rightarrow> Inl e
      | Inr (packetLengthValue, packetLengthNext) \<Rightarrow>
     (case decodeInt32 packet packetLengthNext of
        Inl e \<Rightarrow> Inl e
      | Inr (packetTypeValue, packetTypeNext) \<Rightarrow>
          if packetTypeValue \<noteq> PACKET_STATUS_RESPONSE then Inl (UnexpectedPacketId packetTypeValue)
          else
     (case decodeInt32 packet packetTypeNext of
        Inl e \<Rightarrow> Inl e
      | Inr (jsonLengthValue, start) \<Rightarrow>
          (let end = int start + jsonLengthValue
           in if int (length packet) < end then Inl PayloadTruncated
              else (case jsonParse (subarray packet (int start) end) of
                      None \<Rightarrow> Inl MalformedPayload
                    | Some status \<Rightarrow> Inr status)))))"

section \<open>The protocol client (\<open>getServerStatus\<close>)\<close>

record PingOptions =
  opt_hostname :: string
  opt_port :: int
  opt_serverAddress :: string
  opt_protocolVersion :: "int option"

text \<open>
  The socket as the program drives it: where it was connected to, the packets handed to
  \<open>writer.write\<close> in order, the two stream locks, and how often \<open>close\<close> was called.
\<close>

record Socket =
  sock_hostname :: string
  sock_port :: int
  written :: "byte list list"
  writerLocked :: bool
  readerLocked :: bool
  closeCalls :: nat

definition connect :: "string \<Rightarrow> int \<Rightarrow> Socket" where
  "connect h p =
     \<lparr> sock_hostname = h, sock_port = p, written = [],
       writerLocked = False, readerLocked = False, closeCalls = 0 \<rparr>"

definition getLocks :: "Socket \<Rightarrow> Socket" where
  "getLocks s = s\<lparr> writerLocked := True, readerLocked := True \<rparr>"

definition writePacket :: "byte list \<Rightarrow> Socket \<Rightarrow> Socket" where
  "writePacket p s = s\<lparr> written := written s @ [p] \<rparr>"

definition releaseAndClose :: "Socket \<Rightarrow> Socket" where
  "releaseAndClose s =
     s\<lparr> writerLocked := False, readerLocked := False, closeCalls := Suc (closeCalls s) \<rparr>"

text \<open>
  The body of \<open>pingPromise\<close>, run to its end (the timer of \<open>withTimeout\<close> does not
  fire first): the \<open>try\<close> block, then the \<open>finally\<close> block on either outcome.
  Both writes are taken to succeed, and the reads give the results listed in \<open>reads\<close>.
\<close>

definition pingTry ::
  "(byte list \<Rightarrow> 'a option) \<Rightarrow> PingOptions \<Rightarrow> byte list option list \<Rightarrow> Socket
     \<Rightarrow> Socket \<times> (error + 'a)" where
  "pingTry jsonParse opts reads s =
     (let protocolVersion =
            (case opt_protocolVersion opts of None \<Rightarrow> DEFAULT_PROTOCOL_VERSION | Some v \<Rightarrow> v)
      in case buildHandshakePacket (opt_serverAddress opts) (opt_port opts) protocolVersion of
           Inl e \<Rightarrow> (s, Inl e)
         | Inr handshake \<Rightarrow>
             (let s1 = writePacket handshake s;
                  s2 = writePacket buildStatusRequestPacket s1
              in case readPacket reads of
                   Inl e \<Rightarrow> (s2, Inl e)
                 | Inr packet \<Rightarrow> (s2, parseStatusPacket jsonParse packet)))"

definition getServerStatus ::
  "(byte list \<Rightarrow> 'a option) \<Rightarrow> PingOptions \<Rightarrow> byte list option list
     \<Rightarrow> Socket \<times> (error + 'a)" where
  "getServerStatus jsonParse opts reads =
     (let socket = getLocks (connect (opt_hostname opts) (opt_port opts));
          (s, r) = pingTry jsonParse opts reads socket
      in (releaseAndClose s, r))"

section \<open>SRV resolution (\<open>srv.ts\<close>)\<close>

definition SRV_PREFIX :: string where
  "SRV_PREFIX = ''_minecraft._tcp.''"

definition SRV_RECORD_TYPE :: int where
  "SRV_RECORD_TYPE = 33"

record DnsAnswer =
  ans_name :: string
  ans_type :: int
  ans_TTL :: int
  ans_data :: string

record DnsJsonResponse =
  dns_Status :: int
  dns_Answer :: "DnsAnswer list option"

record ParsedSrvRecord =
  priority :: int
  weight :: int
  port :: int
  target :: string

record ResolvedSrvTarget =
  srv_hostname :: string
  srv_port :: int

subsection \<open>String helpers of JavaScript\<close>

text \<open>
  White space as \<open>trim\<close>, \<open>\s\<close> and \<open>parseInt\<close> see it, among the code points 0 to
  255: tab, line feed, vertical tab, form feed, carriage return, space, no-break space.
\<close>

definition isWhiteSpace :: "char \<Rightarrow> bool" where
  "isWhiteSpace c = ((of_char c :: nat) \<in> {9, 10, 11, 12, 13, 32, 160})"

definition isDigit :: "char \<Rightarrow> bool" where
  "isDigit c = (48 \<le> (of_char c :: nat) \<and> (of_char c :: nat) \<le> 57)"

definition digitValue :: "char \<Rightarrow> int" where
  "digitValue c = int (of_char c) - 48"

definition trim :: "string \<Rightarrow> string" where
  "trim s = rev (dropWhile isWhiteSpace (rev (dropWhile isWhiteSpace s)))"

text \<open>
  \<open>Number.parseInt(s, 10)\<close>: leading white space, an optional sign, then the longest run
  of decimal digits; \<open>None\<close> is \<open>NaN\<close>. The result is an exact integer here, where
  JavaScript rounds beyond \<open>2 ^ 53\<close>.
\<close>

definition parseInt :: "string \<Rightarrow> int option" where
  "parseInt s =
     (let s1 = dropWhile isWhiteSpace s;
          (sign, s2) = (case s1 of
                          [] \<Rightarrow> (1, s1)
                        | c # r \<Rightarrow> if c = CHR ''-'' then (- 1, r)
                                    else if c = CHR ''+'' then (1, r) else (1, s1));
          digits = takeWhile isDigit s2
      in if digits = [] then None
         else Some (sign * foldl (\<lambda>acc c. acc * 10 + digitValue c) 0 digits))"

text \<open>\<open>split(/\s+/)\<close>: the pieces between maximal runs of white space.\<close>

function splitWhiteSpace :: "string \<Rightarrow> string \<Rightarrow> string list" where
  "splitWhiteSpace cur [] = [rev cur]"
| "splitWhiteSpace cur (c # cs) =
     (if isWhiteSpace c then rev cur # splitWhiteSpace [] (dropWhile isWhiteSpace cs)
      else splitWhiteSpace (c # cur) cs)"
  by pat_completeness auto
termination
  by (relation "measure (\<lambda>(cur, s). length s)")
     (auto simp: less_Suc_eq_le length_dropWhile_le)

definition split :: "string \<Rightarrow> string list" where
  "split s = splitWhiteSpace [] s"

text \<open>Array destructuring: a missing element is \<open>undefined\<close>, here \<open>None\<close>.\<close>

definition nthOpt :: "'a list \<Rightarrow> nat \<Rightarrow> 'a option" where
  "nthOpt xs i = (if i < length xs then Some (xs ! i) else None)"

text \<open>\<open>replace(/\.$/, '')\<close>: drops one full stop at the end of the string.\<close>

definition stripTrailingDot :: "string \<Rightarrow> string" where
  "stripTrailingDot s = (if s \<noteq> [] \<and> last s = CHR ''.'' then butlast s else s)"

subsection \<open>Parsing and selecting records\<close>

definition parseSrvRecord :: "DnsAnswer \<Rightarrow> ParsedSrvRecord option" where
  "parseSrvRecord answer =
     (if ans_type answer \<noteq> SRV_RECORD_TYPE then None
      else
        (let parts = split (trim (ans_data answer));
             priority = Option.bind (nthOpt parts 0) parseInt;
             weight = Option.bind (nthOpt parts 1) parseInt;
             port = Option.bind (nthOpt parts 2) parseInt;
             target = map_option stripTrailingDot (nthOpt parts 3)
         in case (priority, weight, port, target) of
              (Some pr, Some w, Some po, Some t) \<Rightarrow>
                if t = [] then None
                else if po < 1 \<or> 65535 < po then None
                else Some \<lparr> priority = pr, weight = max 0 w, port = po, target = t \<rparr>
            | _ \<Rightarrow> None))"

text \<open>
  The loop of \<open>pickSrvRecord\<close>: subtract each weight from the roll and return the first
  record at which the roll is no longer positive; \<open>None\<close> when the loop ends without
  returning.
\<close>

fun walk :: "real \<Rightarrow> ParsedSrvRecord list \<Rightarrow> ParsedSrvRecord option" where
  "walk roll [] = None"
| "walk roll (record # rest) =
     (let roll' = roll - real_of_int (weight record)
      in if roll' \<le> 0 then Some record else walk roll' rest)"

text \<open>
  \<open>pickSrvRecord\<close> with the value of \<open>Math.random()\<close> as the parameter \<open>rnd\<close>.
  The roll is an exact real number here. Indexing an empty array gives \<open>undefined\<close>,
  here \<open>None\<close>.
\<close>

definition candidatesOf :: "ParsedSrvRecord list \<Rightarrow> ParsedSrvRecord list" where
  "candidatesOf records =
     (let minPriority = min_list (map priority records)
      in filter (\<lambda>record. priority record = minPriority) records)"

definition totalWeightOf :: "ParsedSrvRecord list \<Rightarrow> int" where
  "totalWeightOf candidates = foldl (\<lambda>sum record. sum + weight record) 0 candidates"

definition pickSrvRecord :: "real \<Rightarrow> ParsedSrvRecord list \<Rightarrow> ParsedSrvRecord option" where
  "pickSrvRecord rnd records =
     (if records = [] then None
      else
        (let candidates = candidatesOf records;
             totalWeight = totalWeightOf candidates
         in if totalWeight \<le> 0 then nthOpt candidates 0
            else (case walk (rnd * real_of_int totalWeight) candidates of
                    Some record \<Rightarrow> Some record
                  | None \<Rightarrow> nthOpt candidates (length candidates - 1))))"

text \<open>
  Of the URL that \<open>buildSrvQueryUrl\<close> builds, the model keeps the value of its
  \<open>name\<close> parameter; the endpoint and the record type are constants.
\<close>

definition buildSrvQueryUrl :: "string \<Rightarrow> string" where
  "buildSrvQueryUrl hostname =
     (let normalized = (if hostname \<noteq> [] \<and> last hostname = CHR ''.''
                        then butlast hostname else hostname)
      in SRV_PREFIX @ normalized)"

text \<open>
  What the DNS-over-HTTPS exchange can do: the request fails, the timer aborts it, or a
  response arrives with its \<open>ok\<close> flag and a body. The body is not JSON at all, or
  it is JSON on which reading the declared fields raises a type error, or it is JSON of
  the declared shape. The exchange is the parameter \<open>dns\<close>, a function of the query
  name.
\<close>

datatype json_body = MalformedJson | IllTypedJson | JsonBody DnsJsonResponse

datatype dns_exchange = NetworkError | TimedOut | HttpResponse bool json_body

definition resolveTry :: "real \<Rightarrow> (string \<Rightarrow> dns_exchange) \<Rightarrow> string
     \<Rightarrow> error + ResolvedSrvTarget option" where
  "resolveTry rnd dns hostname =
     (case dns (buildSrvQueryUrl hostname) of
        NetworkError \<Rightarrow> Inl FetchFailed
      | TimedOut \<Rightarrow> Inl FetchAborted
      | HttpResponse ok body \<Rightarrow>
          if \<not> ok then Inr None
          else (case body of
                  MalformedJson \<Rightarrow> Inl JsonSyntaxError
                | IllTypedJson \<Rightarrow> Inl TypeError
                | JsonBody result \<Rightarrow>
                    (let answers = (case dns_Answer result of None \<Rightarrow> [] | Some a \<Rightarrow> a);
                         parsed = List.map_filter parseSrvRecord answers
                     in case pickSrvRecord rnd parsed of
                          None \<Rightarrow> Inr None
                        | Some selection \<Rightarrow>
                            Inr (Some \<lparr> srv_hostname = target selection,
                                        srv_port = port selection \<rparr>))))"

text \<open>The \<open>catch\<close> around the whole body returns \<open>null\<close> for every exception.\<close>

definition resolveMinecraftSrv :: "real \<Rightarrow> (string \<Rightarrow> dns_exchange) \<Rightarrow> string
     \<Rightarrow> error + ResolvedSrvTarget option" where
  "resolveMinecraftSrv rnd dns hostname =
     (case resolveTry rnd dns hostname of
        Inl e \<Rightarrow> Inr None
      | Inr r \<Rightarrow> Inr r)"

section \<open>The request handler (\<open>fetch\<close>)\<close>

text \<open>
  A query parameter is \<open>None\<close> when absent (\<open>null\<close>). The messages of the 400
  responses are written without their quotation marks.
\<close>

definition parsePort :: "string option \<Rightarrow> string + int" where
  "parsePort v =
     (case v of
        None \<Rightarrow> Inr 25565
      | Some s \<Rightarrow>
          if s = [] then Inr 25565
          else (case parseInt s of
                  None \<Rightarrow> Inl ''port must be an integer between 1 and 65535''
                | Some parsed \<Rightarrow>
                    if parsed < 1 \<or> 65535 < parsed
                    then Inl ''port must be an integer between 1 and 65535''
                    else Inr parsed))"

definition parseProtocol :: "string option \<Rightarrow> string + int option" where
  "parseProtocol v =
     (case v of
        None \<Rightarrow> Inr None
      | Some s \<Rightarrow>
          if s = [] then Inr None
          else (case parseInt s of
                  None \<Rightarrow> Inl ''protocolVersion must be a positive integer''
                | Some parsed \<Rightarrow>
                    if parsed \<le> 0 then Inl ''protocolVersion must be a positive integer''
                    else Inr (Some parsed)))"

definition isBlank :: "string option \<Rightarrow> bool" where
  "isBlank v = (case v of None \<Rightarrow> True | Some s \<Rightarrow> length (trim s) = 0)"

record Request =
  req_hostname :: "string option"
  req_port :: "string option"
  req_protocolVersion :: "string option"

text \<open>
  \<open>fetch\<close> up to the outcome of the ping: \<open>BadRequest\<close> carries the message of a
  400 response, \<open>Pinged\<close> the socket as the ping left it with the ping's result.
  Formatting the HTTP response from that result is left out. A resolver that raised would
  end the handler with that exception, which is \<open>Raised\<close>.
\<close>

datatype 'a fetched = BadRequest string | Raised error | Pinged Socket "error + 'a"

definition fetch ::
  "(byte list \<Rightarrow> 'a option) \<Rightarrow> real \<Rightarrow> (string \<Rightarrow> dns_exchange) \<Rightarrow> byte list option list
     \<Rightarrow> Request \<Rightarrow> 'a fetched" where
  "fetch jsonParse rnd dns reads request =
     (case req_hostname request of
        None \<Rightarrow> BadRequest ''hostname query param is required''
      | Some hostname \<Rightarrow>
          if hostname = [] then BadRequest ''hostname query param is required''
          else
     (let requestedPort = req_port request
      in case parsePort requestedPort of
           Inl message \<Rightarrow> BadRequest message
         | Inr parsedPort \<Rightarrow>
     (case parseProtocol (req_protocolVersion request) of
        Inl message \<Rightarrow> BadRequest message
      | Inr parsedProtocol \<Rightarrow>
     (case (if isBlank requestedPort then resolveMinecraftSrv rnd dns hostname else Inr None) of
        Inl e \<Rightarrow> Raised e
      | Inr srvTarget \<Rightarrow>
          (let targetHostname = (case srvTarget of Some t \<Rightarrow> srv_hostname t | None \<Rightarrow> hostname);
               targetPort = (case srvTarget of Some t \<Rightarrow> srv_port t | None \<Rightarrow> parsedPort);
               (s, r) = getServerStatus jsonParse
                          \<lparr> opt_hostname = targetHostname, opt_port = targetPort,
                            opt_serverAddress = hostname,
                            opt_protocolVersion = parsedProtocol \<rparr> reads
           in Pinged s r)))))"

section \<open>A worked request\<close>

text \<open>
  The request \<open>?hostname=play.example.com\<close> with no port, and a DNS service that
  answers the SRV query for it with the one record \<open>0 5 25566 backend.example.com.\<close>
\<close>

definition example_request :: Request where
  "example_request =
     \<lparr> req_hostname = Some ''play.example.com'', req_port = None,
       req_protocolVersion = None \<rparr>"

definition example_dns :: "string \<Rightarrow> dns_exchange" where
  "example_dns q =
     (if q = ''_minecraft._tcp.play.example.com''
      then HttpResponse True
             (JsonBody \<lparr> dns_Status = 0,
                        dns_Answer = Some [\<lparr> ans_name = q, ans_type = 33, ans_TTL = 300,
                                             ans_data = ''0 5 25566 backend.example.com.'' \<rparr>] \<rparr>)
      else NetworkError)"

section \<open>Properties of the VarInt codec\<close>

lemma uint_byte: "0 \<le> k \<Longrightarrow> k < 256 \<Longrightarrow> uint (of_int k :: byte) = k"
  by (simp add: uint_word_of_int_eq take_bit_int_eq_self)

lemma encodeUnsigned_small: "n < 128 \<Longrightarrow> encodeUnsigned n = [of_int n]"
  by (simp add: encodeUnsigned.simps)

lemma encodeUnsigned_large:
  "128 \<le> n \<Longrightarrow> encodeUnsigned n = of_int (128 + n mod 128) # encodeUnsigned (n div 128)"
  by (subst encodeUnsigned.simps) simp

lemma length_encodeUnsigned:
  assumes "0 \<le> n" and "n < 2 ^ 32"
  shows "length (encodeUnsigned n) =
           (if n < 128 then 1 else if n < 16384 then 2 else if n < 2097152 then 3
            else if n < 268435456 then 4 else 5)"
proof -
  have d1: "n div 128 < 128 \<longleftrightarrow> n < 16384" by linarith
  have d2: "n div 128 div 128 < 128 \<longleftrightarrow> n < 2097152" by linarith
  have d3: "n div 128 div 128 div 128 < 128 \<longleftrightarrow> n < 268435456" by linarith
  have d4: "n div 128 div 128 div 128 div 128 < 128" using assms by simp
  show ?thesis
    by (simp add: encodeUnsigned.simps [of n] encodeUnsigned.simps [of "n div 128"]
        encodeUnsigned.simps [of "n div 128 div 128"]
        encodeUnsigned.simps [of "n div 128 div 128 div 128"]
        encodeUnsigned.simps [of "n div 128 div 128 div 128 div 128"] d1 d2 d3 d4)
qed

lemma length_encodeUnsigned_le5: "0 \<le> n \<Longrightarrow> n < 2 ^ 32 \<Longrightarrow> length (encodeUnsigned n) \<le> 5"
  by (simp add: length_encodeUnsigned)

text \<open>Decoding an encoding gives the value back and stops at the encoding's end.\<close>

lemma decodeBytes_encodeUnsigned:
  "0 \<le> n \<Longrightarrow> i + length (encodeUnsigned n) \<le> 5 \<Longrightarrow>
   decodeBytes i (encodeUnsigned n @ rest) = Inr (n, length (encodeUnsigned n))"
proof (induction n arbitrary: i rule: encodeUnsigned.induct)
  case (1 n)
  show ?case
  proof (cases "n < 128")
    case True
    with "1.prems" show ?thesis
      by (simp add: encodeUnsigned_small uint_byte)
  next
    case False
    then have large: "128 \<le> n" by simp
    have b: "uint (128 + word_of_int (n mod 128) :: byte) = 128 + n mod 128"
      using uint_byte [of "128 + n mod 128"] by simp
    have len: "Suc i + length (encodeUnsigned (n div 128)) \<le> 5"
      using "1.prems"(2) by (simp add: encodeUnsigned_large [OF large])
    have "0 \<le> n div 128" using large by simp
    from "1.IH" [OF False this len]
    have ih: "decodeBytes (Suc i) (encodeUnsigned (n div 128) @ rest)
                = Inr (n div 128, length (encodeUnsigned (n div 128)))" .
    have i5: "\<not> 5 \<le> i" using len by simp
    have nm: "\<not> n mod 128 < 0" by (simp add: not_less)
    show ?thesis
      using i5 nm by (simp add: encodeUnsigned_large [OF large] b ih)
  qed
qed

text \<open>A proper prefix of an encoding has no terminating byte.\<close>

lemma decodeBytes_truncated:
  "0 \<le> n \<Longrightarrow> j < length (encodeUnsigned n) \<Longrightarrow> i + j \<le> 5 \<Longrightarrow>
   decodeBytes i (take j (encodeUnsigned n)) = Inl DecodeNeedMoreData"
proof (induction n arbitrary: i j rule: encodeUnsigned.induct)
  case (1 n)
  show ?case
  proof (cases "n < 128")
    case True
    with "1.prems" show ?thesis
      by (simp add: encodeUnsigned_small)
  next
    case False
    then have large: "128 \<le> n" by simp
    have b: "uint (128 + word_of_int (n mod 128) :: byte) = 128 + n mod 128"
      using uint_byte [of "128 + n mod 128"] by simp
    show ?thesis
    proof (cases j)
      case 0
      then show ?thesis by simp
    next
      case (Suc j')
      have "0 \<le> n div 128" using large by simp
      moreover have "j' < length (encodeUnsigned (n div 128))"
        using "1.prems"(2) Suc by (simp add: encodeUnsigned_large [OF large])
      moreover have "Suc i + j' \<le> 5" using "1.prems"(3) Suc by simp
      ultimately have ih: "decodeBytes (Suc i) (take j' (encodeUnsigned (n div 128)))
                = Inl DecodeNeedMoreData"
        using "1.IH" [OF False] by blast
      have i5: "\<not> 5 \<le> i" using "1.prems"(3) Suc by simp
      show ?thesis
        using i5 by (simp add: encodeUnsigned_large [OF large] Suc b ih)
    qed
  qed
qed

text \<open>A successful decode of \<open>k\<close> bytes gives a value of at most \<open>7 * k\<close> bits.\<close>

lemma decodeBytes_bound:
  "decodeBytes i bs = Inr (v, k) \<Longrightarrow>
   0 \<le> v \<and> v < 128 ^ k \<and> 0 < k \<and> k \<le> length bs \<and> i + k \<le> 5"
proof (induction i bs arbitrary: v k rule: decodeBytes.induct)
  case (1 i)
  then show ?case by simp
next
  case (2 i b bs)
  show ?case
  proof (cases "uint b < 128")
    case True
    with "2.prems" show ?thesis by (auto split: if_splits)
  next
    case False
    from "2.prems" False have i5: "\<not> 5 \<le> i" by (auto split: if_splits)
    from "2.prems" False i5 obtain v' k' where
      rec: "decodeBytes (Suc i) bs = Inr (v', k')" and
      v: "v = uint b mod 128 + 128 * v'" and k: "k = Suc k'"
      by (auto split: sum.splits)
    from "2.IH" [OF i5 False rec]
    have ih: "0 \<le> v'" "v' < 128 ^ k'" "0 < k'" "k' \<le> length bs" "Suc i + k' \<le> 5" by simp_all
    have m: "0 \<le> uint b mod 128" "uint b mod 128 < 128" by simp_all
    have "v' + 1 \<le> 128 ^ k'" using ih(2) by simp
    then have "128 * (v' + 1) \<le> 128 * 128 ^ k'" by simp
    then have "v < 128 ^ k" using v k m by simp
    moreover have "0 \<le> v" using v m ih(1) by simp
    ultimately show ?thesis using k ih by simp
  qed
qed

lemma toInt32_mod:
  assumes "- (2 ^ 31) \<le> v" and "v < 2 ^ 31"
  shows "toInt32 (v mod 2 ^ 32) = v"
proof (cases "0 \<le> v")
  case True
  with assms have "v mod 2 ^ 32 = v" by simp
  with True assms show ?thesis by (simp add: toInt32_def)
next
  case False
  have "(v + 2 ^ 32) mod 2 ^ 32 = v + 2 ^ 32"
    by (rule mod_pos_pos_trivial) (use assms False in simp_all)
  then have "v mod 2 ^ 32 = v + 2 ^ 32" by simp
  with False assms show ?thesis by (simp add: toInt32_def Let_def)
qed

lemma toInt32_small: "0 \<le> u \<Longrightarrow> u < 2 ^ 31 \<Longrightarrow> toInt32 u = u"
  unfolding toInt32_def Let_def by simp

lemma decodeInt32_encodeVarInt_append:
  assumes "- (2 ^ 31) \<le> v" and "v < 2 ^ 31"
  shows "decodeInt32 (encodeVarInt v @ rest) 0 = Inr (v, length (encodeVarInt v))"
proof -
  let ?n = "v mod 2 ^ 32"
  have n: "0 \<le> ?n" "?n < 2 ^ 32" by simp_all
  have "decodeBytes 0 (encodeUnsigned ?n @ rest) = Inr (?n, length (encodeUnsigned ?n))"
    using decodeBytes_encodeUnsigned [of ?n 0 rest] length_encodeUnsigned_le5 [OF n] n(1)
    by simp
  then show ?thesis
    using toInt32_mod [OF assms]
    by (simp add: decodeInt32_def encodeVarInt_def encodeInt32_def)
qed

lemma encodeVarInt_shortest:
  assumes v: "- (2 ^ 31) \<le> v" "v < 2 ^ 31"
    and dec: "decodeInt32 bs 0 = Inr (v, k)"
  shows "length (encodeVarInt v) \<le> k"
proof -
  let ?n = "v mod 2 ^ 32"
  have n: "0 \<le> ?n" "?n < 2 ^ 32" by simp_all
  from dec obtain u where u: "decodeBytes 0 bs = Inr (u, k)" and uv: "toInt32 u = v"
    by (auto simp: decodeInt32_def split: sum.splits)
  from decodeBytes_bound [OF u] have b: "0 \<le> u" "u < 128 ^ k" "0 < k" "k \<le> 5" by simp_all
  show ?thesis
  proof (cases "k = 5")
    case True
    then show ?thesis
      using length_encodeUnsigned_le5 [OF n] by (simp add: encodeVarInt_def encodeInt32_def)
  next
    case False
    with b have k: "k = 1 \<or> k = 2 \<or> k = 3 \<or> k = 4" by arith
    then have "(128::int) ^ k \<le> 128 ^ 4" by auto
    with b have u28: "u < 2 ^ 31" by simp
    with b uv have "v = u" by (simp add: toInt32_small)
    then have nu: "?n = u" using b u28 by simp
    have "length (encodeUnsigned u) \<le> k"
      using k b(2) length_encodeUnsigned [of u] b(1) u28 by auto
    then show ?thesis using nu by (simp add: encodeVarInt_def encodeInt32_def)
  qed
qed

text \<open>
  C5. For every 32-bit value the encoder returns a byte sequence that decodes to the
  value, whose length is 1 for a 32-bit pattern below \<open>2^7\<close>, 2 below \<open>2^14\<close>,
  3 below \<open>2^21\<close>, 4 below \<open>2^28\<close> and 5 otherwise, and no byte sequence that
  decodes to the value is shorter.
\<close>

theorem encodeVarInt_minimal:
  assumes "- (2 ^ 31) \<le> v" and "v < 2 ^ 31"
  shows "decodeInt32 (encodeVarInt v) 0 = Inr (v, length (encodeVarInt v))
       \<and> length (encodeVarInt v) =
           (let u = v mod 2 ^ 32
            in if u < 128 then 1 else if u < 16384 then 2 else if u < 2097152 then 3
               else if u < 268435456 then 4 else 5)
       \<and> (\<forall>bs k. decodeInt32 bs 0 = Inr (v, k) \<longrightarrow> length (encodeVarInt v) \<le> k)"
proof -
  have "decodeInt32 (encodeVarInt v) 0 = Inr (v, length (encodeVarInt v))"
    using decodeInt32_encodeVarInt_append [OF assms, of "[]"] by simp
  moreover have "length (encodeVarInt v) =
           (let u = v mod 2 ^ 32
            in if u < 128 then 1 else if u < 16384 then 2 else if u < 2097152 then 3
               else if u < 268435456 then 4 else 5)"
    unfolding Let_def encodeVarInt_def encodeInt32_def
    by (rule length_encodeUnsigned) simp_all
  moreover have "\<forall>bs k. decodeInt32 bs 0 = Inr (v, k) \<longrightarrow> length (encodeVarInt v) \<le> k"
    using encodeVarInt_shortest [OF assms] by blast
  ultimately show ?thesis by blast
qed

theorem encodeVarInt_minimal_witness:
  "- (2 ^ 31) \<le> (300::int) \<and> (300::int) < 2 ^ 31
   \<and> decodeInt32 (encodeVarInt 300) 0 = Inr (300, 2) \<and> length (encodeVarInt 300) = 2
   \<and> decodeInt32 [0xAC, 0x82, 0x00] 0 = Inr (300, 3) \<and> length (encodeVarInt 300) \<le> 3"
proof -
  have padded: "decodeInt32 [0xAC, 0x82, 0x00] 0 = Inr (300, 3)" by code_simp
  show ?thesis using encodeVarInt_minimal [of 300] padded by auto
qed

text \<open>
  C8. For each of the ten listed integers, decoding its encoding at offset 0 gives the
  integer and the number of bytes of the encoding.
\<close>

theorem varint_roundtrip_listed:
  "map (\<lambda>v. decodeInt32 (encodeVarInt v) 0)
     [0, 1, 127, 128, 16383, 16384, 2097151, 2097152, 268435455, 2147483647]
   = map (\<lambda>v. Inr (v, length (encodeVarInt v)))
     [0, 1, 127, 128, 16383, 16384, 2097151, 2097152, 268435455, 2147483647]"
  by code_simp

section \<open>The handshake packet\<close>

text \<open>
  C2, as the spec states it: the handshake packet for protocol version 765, address
  \<open>localhost\<close> and port 25565 would be \<open>10 00 f9 05 09 6c 6f 63 61 6c 68 6f 73 74 63 dd 01\<close>.
  The packet built differs from it.
\<close>

theorem handshake_bytes_counterexample:
  "buildHandshakePacket ''localhost'' 25565 765 \<noteq>
     Inr [0x10, 0x00, 0xf9, 0x05, 0x09, 0x6c, 0x6f, 0x63, 0x61, 0x6c, 0x68, 0x6f, 0x73, 0x74,
          0x63, 0xdd, 0x01]"
  by code_simp

text \<open>
  C2, amended: the handshake packet for protocol version 765, address \<open>localhost\<close> and
  port 25565 is the 17 bytes \<open>10 00 fd 05 09 6c 6f 63 61 6c 68 6f 73 74 63 dd 01\<close>.
\<close>

theorem handshake_bytes:
  "buildHandshakePacket ''localhost'' 25565 765 =
     Inr [0x10, 0x00, 0xfd, 0x05, 0x09, 0x6c, 0x6f, 0x63, 0x61, 0x6c, 0x68, 0x6f, 0x73, 0x74,
          0x63, 0xdd, 0x01]"
  by code_simp

text \<open>The bytes \<open>f9 05\<close> are the VarInt of protocol version 761.\<close>

lemma handshake_bytes_761:
  "buildHandshakePacket ''localhost'' 25565 761 =
     Inr [0x10, 0x00, 0xf9, 0x05, 0x09, 0x6c, 0x6f, 0x63, 0x61, 0x6c, 0x68, 0x6f, 0x73, 0x74,
          0x63, 0xdd, 0x01]"
  by code_simp


section \<open>Properties of the SRV selection\<close>

lemma candidatesOf_subset: "set (candidatesOf records) \<subseteq> set records"
  by (auto simp: candidatesOf_def)

lemma candidatesOf_nonempty:
  assumes "records \<noteq> []"
  shows "candidatesOf records \<noteq> []"
proof -
  from assms have ne: "map priority records \<noteq> []" by simp
  have "min_list (map priority records) \<in> set (map priority records)"
    using Min_in [of "set (map priority records)"] ne
    by (simp add: min_list_Min [OF ne])
  then obtain r where "r \<in> set records" "priority r = min_list (map priority records)"
    by auto
  then have "r \<in> set (candidatesOf records)" by (simp add: candidatesOf_def)
  then show ?thesis by auto
qed

lemma walk_member: "walk roll cs = Some r \<Longrightarrow> r \<in> set cs"
  by (induction cs arbitrary: roll) (auto simp: Let_def split: if_splits)

lemma nthOpt_first: "cs \<noteq> [] \<Longrightarrow> nthOpt cs 0 = Some (hd cs)"
  by (cases cs) (simp_all add: nthOpt_def)

lemma nthOpt_last: "cs \<noteq> [] \<Longrightarrow> nthOpt cs (length cs - 1) = Some (last cs)"
  by (simp add: nthOpt_def last_conv_nth)

lemma totalWeightOf_foldl:
  "foldl (\<lambda>sum record. sum + weight record) a cs = a + sum_list (map weight cs)"
  by (induction cs arbitrary: a) simp_all

lemma totalWeightOf_sum: "totalWeightOf cs = sum_list (map weight cs)"
  by (simp add: totalWeightOf_def totalWeightOf_foldl)

text \<open>The loop ends without returning only when the roll exceeds the sum of the weights.\<close>

lemma walk_None:
  "cs \<noteq> [] \<Longrightarrow> walk roll cs = None \<Longrightarrow> real_of_int (sum_list (map weight cs)) < roll"
proof (induction cs arbitrary: roll)
  case Nil
  then show ?case by simp
next
  case (Cons c cs)
  from Cons.prems(2) have pos: "0 < roll - real_of_int (weight c)"
    and rest: "walk (roll - real_of_int (weight c)) cs = None"
    by (auto simp: Let_def split: if_splits)
  show ?case
  proof (cases cs)
    case Nil
    with pos show ?thesis by simp
  next
    case (Cons d ds)
    then have "cs \<noteq> []" by simp
    from Cons.IH [OF this rest] show ?thesis by simp
  qed
qed

text \<open>With a positive roll the loop returns a record of positive weight.\<close>

lemma walk_positive: "0 < roll \<Longrightarrow> walk roll cs = Some r \<Longrightarrow> 0 < weight r"
proof (induction cs arbitrary: roll)
  case Nil
  then show ?case by simp
next
  case (Cons c cs)
  show ?case
  proof (cases "roll - real_of_int (weight c) \<le> 0")
    case True
    with Cons.prems have "r = c" by simp
    moreover from True Cons.prems(1) have "0 < real_of_int (weight c)" by linarith
    ultimately show ?thesis by simp
  next
    case False
    with Cons.prems have "walk (roll - real_of_int (weight c)) cs = Some r" by simp
    with False Cons.IH [of "roll - real_of_int (weight c)"] show ?thesis by simp
  qed
qed

lemma walk_zero: "cs \<noteq> [] \<Longrightarrow> 0 \<le> weight (hd cs) \<Longrightarrow> walk 0 cs = Some (hd cs)"
  by (cases cs) simp_all

text \<open>The candidates are the records at minimum priority, in the order of the list.\<close>

lemma candidatesOf_filter:
  "candidatesOf records =
     filter (\<lambda>r. \<forall>r'\<in>set records. priority r \<le> priority r') records"
proof (cases "records = []")
  case True
  then show ?thesis by (simp add: candidatesOf_def)
next
  case False
  let ?ps = "map priority records"
  let ?m = "min_list ?ps"
  from False have ne: "?ps \<noteq> []" by simp
  have m: "?m = Min (set ?ps)" by (rule min_list_Min [OF ne])
  have le: "?m \<le> priority r'" if "r' \<in> set records" for r'
    using that by (simp add: m)
  have "Min (set ?ps) \<in> set ?ps" using ne by (intro Min_in) simp_all
  then obtain r0 where r0: "r0 \<in> set records" "priority r0 = ?m"
    using m by auto
  have "(priority r = ?m) = (\<forall>r'\<in>set records. priority r \<le> priority r')"
    if "r \<in> set records" for r
  proof
    assume "priority r = ?m"
    then show "\<forall>r'\<in>set records. priority r \<le> priority r'" using le by simp
  next
    assume all: "\<forall>r'\<in>set records. priority r \<le> priority r'"
    then have "priority r \<le> ?m" using r0 by auto
    with le [OF that] show "priority r = ?m" by simp
  qed
  then show ?thesis
    unfolding candidatesOf_def Let_def by (intro filter_cong) simp_all
qed

lemma candidatesOf_minimum:
  "r \<in> set (candidatesOf records) \<Longrightarrow> \<forall>r'\<in>set records. priority r \<le> priority r'"
  by (simp add: candidatesOf_filter)

text \<open>A draw below 1 keeps the roll below the total weight, and then the walk selects.\<close>

lemma walk_selects:
  assumes "0 < totalWeightOf cs" and "rnd < 1"
  shows "walk (rnd * real_of_int (totalWeightOf cs)) cs \<noteq> None"
proof
  assume none: "walk (rnd * real_of_int (totalWeightOf cs)) cs = None"
  from assms(1) have ne: "cs \<noteq> []" by (auto simp: totalWeightOf_def)
  have "rnd * real_of_int (totalWeightOf cs) < real_of_int (totalWeightOf cs)"
    using assms by simp
  with walk_None [OF ne none] show False by (simp add: totalWeightOf_sum)
qed

text \<open>
  C10. For a non-empty list of records and every value of the draw, the selection returns
  a record; that record is an element of the list and no record of the list has a lower
  priority. The candidates are the records of the list at minimum priority, in order. When
  the total weight is positive and the weighted walk ends without selecting, the record
  returned is the last of these candidates. The walk can end so only for a draw of 1 or
  more: with exact numbers every draw below 1 makes the walk select.
\<close>

theorem pickSrvRecord_member:
  assumes "records \<noteq> []"
  shows "(\<exists>r. pickSrvRecord rnd records = Some r \<and> r \<in> set records
             \<and> (\<forall>r'\<in>set records. priority r \<le> priority r'))
       \<and> candidatesOf records =
           filter (\<lambda>r. \<forall>r'\<in>set records. priority r \<le> priority r') records
       \<and> (0 < totalWeightOf (candidatesOf records)
            \<and> walk (rnd * real_of_int (totalWeightOf (candidatesOf records)))
                 (candidatesOf records) = None
          \<longrightarrow> pickSrvRecord rnd records = Some (last (candidatesOf records))
              \<and> last (candidatesOf records) \<in> set records)
       \<and> (0 < totalWeightOf (candidatesOf records) \<and> rnd < 1
          \<longrightarrow> walk (rnd * real_of_int (totalWeightOf (candidatesOf records)))
                 (candidatesOf records) \<noteq> None)"
proof -
  let ?cs = "candidatesOf records"
  let ?w = "walk (rnd * real_of_int (totalWeightOf ?cs)) ?cs"
  have ne: "?cs \<noteq> []" by (rule candidatesOf_nonempty [OF assms])
  have sub: "set ?cs \<subseteq> set records" by (rule candidatesOf_subset)
  have good: "r \<in> set records \<and> (\<forall>r'\<in>set records. priority r \<le> priority r')"
    if "r \<in> set ?cs" for r
    using that sub candidatesOf_minimum [OF that] by auto
  have last_in: "last ?cs \<in> set ?cs" using ne by simp
  have fallback: "pickSrvRecord rnd records = Some (last ?cs) \<and> last ?cs \<in> set records"
    if "0 < totalWeightOf ?cs" and "?w = None"
    using that assms nthOpt_last [OF ne] good [OF last_in]
    by (simp add: pickSrvRecord_def Let_def)
  have "\<exists>r. pickSrvRecord rnd records = Some r \<and> r \<in> set ?cs"
  proof (cases "totalWeightOf ?cs \<le> 0")
    case True
    then have "pickSrvRecord rnd records = Some (hd ?cs)"
      using assms by (simp add: pickSrvRecord_def Let_def nthOpt_first [OF ne])
    moreover have "hd ?cs \<in> set ?cs" using ne by simp
    ultimately show ?thesis by blast
  next
    case False
    show ?thesis
    proof (cases ?w)
      case None
      with False have "pickSrvRecord rnd records = Some (last ?cs)"
        using fallback by simp
      with last_in show ?thesis by blast
    next
      case (Some r)
      with False assms have "pickSrvRecord rnd records = Some r"
        by (simp add: pickSrvRecord_def Let_def)
      moreover have "r \<in> set ?cs" by (rule walk_member [OF Some])
      ultimately show ?thesis by blast
    qed
  qed
  then have member: "\<exists>r. pickSrvRecord rnd records = Some r \<and> r \<in> set records
             \<and> (\<forall>r'\<in>set records. priority r \<le> priority r')"
    using good by blast
  have selects: "?w \<noteq> None" if "0 < totalWeightOf ?cs" and "rnd < 1"
    using that by (rule walk_selects)
  from member candidatesOf_filter [of records] fallback selects show ?thesis by blast
qed

text \<open>
  Four records of priorities 1, 0, 0 and 3: the candidates are the second and the third.
  The draw 1/4 selects the second in the walk; at the draw 2 the walk ends without
  selecting and the third, the last candidate, is returned, not the last record.
\<close>

theorem pickSrvRecord_member_witness:
  "[\<lparr> priority = 1, weight = 5, port = 1001, target = ''a'' \<rparr>,
    \<lparr> priority = 0, weight = 1, port = 1002, target = ''b'' \<rparr>,
    \<lparr> priority = 0, weight = 2, port = 1003, target = ''c'' \<rparr>,
    \<lparr> priority = 3, weight = 9, port = 1004, target = ''d'' \<rparr>] \<noteq> []
   \<and> candidatesOf
        [\<lparr> priority = 1, weight = 5, port = 1001, target = ''a'' \<rparr>,
         \<lparr> priority = 0, weight = 1, port = 1002, target = ''b'' \<rparr>,
         \<lparr> priority = 0, weight = 2, port = 1003, target = ''c'' \<rparr>,
         \<lparr> priority = 3, weight = 9, port = 1004, target = ''d'' \<rparr>]
       = [\<lparr> priority = 0, weight = 1, port = 1002, target = ''b'' \<rparr>,
          \<lparr> priority = 0, weight = 2, port = 1003, target = ''c'' \<rparr>]
   \<and> totalWeightOf
        [\<lparr> priority = 0, weight = 1, port = 1002, target = ''b'' \<rparr>,
         \<lparr> priority = 0, weight = 2, port = 1003, target = ''c'' \<rparr>] = 3
   \<and> walk (1 / 4 * 3)
        [\<lparr> priority = 0, weight = 1, port = 1002, target = ''b'' \<rparr>,
         \<lparr> priority = 0, weight = 2, port = 1003, target = ''c'' \<rparr>]
       = Some \<lparr> priority = 0, weight = 1, port = 1002, target = ''b'' \<rparr>
   \<and> pickSrvRecord (1 / 4)
        [\<lparr> priority = 1, weight = 5, port = 1001, target = ''a'' \<rparr>,
         \<lparr> priority = 0, weight = 1, port = 1002, target = ''b'' \<rparr>,
         \<lparr> priority = 0, weight = 2, port = 1003, target = ''c'' \<rparr>,
         \<lparr> priority = 3, weight = 9, port = 1004, target = ''d'' \<rparr>]
       = Some \<lparr> priority = 0, weight = 1, port = 1002, target = ''b'' \<rparr>
   \<and> walk (2 * 3)
        [\<lparr> priority = 0, weight = 1, port = 1002, target = ''b'' \<rparr>,
         \<lparr> priority = 0, weight = 2, port = 1003, target = ''c'' \<rparr>] = None
   \<and> pickSrvRecord 2
        [\<lparr> priority = 1, weight = 5, port = 1001, target = ''a'' \<rparr>,
         \<lparr> priority = 0, weight = 1, port = 1002, target = ''b'' \<rparr>,
         \<lparr> priority = 0, weight = 2, port = 1003, target = ''c'' \<rparr>,
         \<lparr> priority = 3, weight = 9, port = 1004, target = ''d'' \<rparr>]
       = Some \<lparr> priority = 0, weight = 2, port = 1003, target = ''c'' \<rparr>"
proof -
  let ?a = "\<lparr> priority = 1, weight = 5, port = 1001, target = ''a'' \<rparr>"
  let ?b = "\<lparr> priority = 0, weight = 1, port = 1002, target = ''b'' \<rparr>"
  let ?c = "\<lparr> priority = 0, weight = 2, port = 1003, target = ''c'' \<rparr>"
  let ?d = "\<lparr> priority = 3, weight = 9, port = 1004, target = ''d'' \<rparr>"
  have c: "candidatesOf [?a, ?b, ?c, ?d] = [?b, ?c]"
    using pickSrvRecord_member [of "[?a, ?b, ?c, ?d]" 2] by simp
  have t: "totalWeightOf [?b, ?c] = 3" by (simp add: totalWeightOf_def)
  have w1: "walk (1 / 4 * 3) [?b, ?c] = Some ?b" by simp
  have w2: "walk (2 * 3) [?b, ?c] = None" by simp
  have quarter: "pickSrvRecord (1 / 4) [?a, ?b, ?c, ?d] = Some ?b"
    using c t w1 by (simp add: pickSrvRecord_def)
  have two: "pickSrvRecord 2 [?a, ?b, ?c, ?d] = Some ?c"
    using pickSrvRecord_member [of "[?a, ?b, ?c, ?d]" 2] c t w2 by simp
  from c t w1 w2 quarter two show ?thesis by simp
qed

text \<open>
  C3, as the spec states it: with a positive total weight no draw in \<open>[0, totalWeight)\<close>
  returns a record of weight 0. At the draw 0 the first candidate is returned, and here it
  has weight 0.
\<close>

theorem zero_weight_counterexample:
  "0 < totalWeightOf (candidatesOf
         [\<lparr> priority = 0, weight = 0, port = 25565, target = ''a'' \<rparr>,
          \<lparr> priority = 0, weight = 100, port = 25566, target = ''b'' \<rparr>])
   \<and> pickSrvRecord 0
         [\<lparr> priority = 0, weight = 0, port = 25565, target = ''a'' \<rparr>,
          \<lparr> priority = 0, weight = 100, port = 25566, target = ''b'' \<rparr>]
       = Some \<lparr> priority = 0, weight = 0, port = 25565, target = ''a'' \<rparr>
   \<and> weight \<lparr> priority = 0, weight = 0, port = 25565, target = ''a'' \<rparr> = 0"
  by (simp add: pickSrvRecord_def candidatesOf_def totalWeightOf_def)

text \<open>
  C3, amended: with a positive total weight, every draw strictly between 0 and the total
  weight returns a candidate of non-zero weight; the draw 0 returns the first candidate,
  whatever its weight.
\<close>

theorem weighted_draw_zero_weight:
  assumes "0 < totalWeightOf (candidatesOf records)"
  shows "(0 < rnd \<and> rnd < 1 \<longrightarrow>
            (\<exists>r. pickSrvRecord rnd records = Some r \<and> r \<in> set (candidatesOf records)
                  \<and> weight r \<noteq> 0))
       \<and> (0 \<le> weight (hd (candidatesOf records)) \<longrightarrow>
            pickSrvRecord 0 records = Some (hd (candidatesOf records)))"
proof -
  let ?cs = "candidatesOf records"
  let ?t = "totalWeightOf ?cs"
  from assms have rec: "records \<noteq> []"
    by (auto simp: candidatesOf_def totalWeightOf_def)
  then have ne: "?cs \<noteq> []" by (rule candidatesOf_nonempty)
  have pos: "0 < real_of_int ?t" using assms by simp
  have first: "pickSrvRecord 0 records = Some (hd ?cs)" if "0 \<le> weight (hd ?cs)"
    using rec assms walk_zero [OF ne that] by (simp add: pickSrvRecord_def Let_def)
  have draw: "\<exists>r. pickSrvRecord rnd records = Some r \<and> r \<in> set ?cs \<and> weight r \<noteq> 0"
    if r0: "0 < rnd" and r1: "rnd < 1"
  proof -
    let ?roll = "rnd * real_of_int ?t"
    have roll_pos: "0 < ?roll" using r0 pos by simp
    have roll_lt: "?roll < real_of_int ?t" using r1 pos by simp
    have "walk ?roll ?cs \<noteq> None"
    proof
      assume "walk ?roll ?cs = None"
      from walk_None [OF ne this] roll_lt show False
        by (simp add: totalWeightOf_sum)
    qed
    then obtain r where r: "walk ?roll ?cs = Some r" by auto
    with rec assms have "pickSrvRecord rnd records = Some r"
      by (simp add: pickSrvRecord_def Let_def)
    moreover have "r \<in> set ?cs" by (rule walk_member [OF r])
    moreover have "weight r \<noteq> 0" using walk_positive [OF roll_pos r] by simp
    ultimately show ?thesis by blast
  qed
  from first draw show ?thesis by blast
qed

theorem weighted_draw_zero_weight_witness:
  "0 < totalWeightOf (candidatesOf
         [\<lparr> priority = 0, weight = 0, port = 25565, target = ''a'' \<rparr>,
          \<lparr> priority = 0, weight = 100, port = 25566, target = ''b'' \<rparr>])
   \<and> (0::real) < 1 / 2 \<and> (1 / 2 :: real) < 1
   \<and> pickSrvRecord (1 / 2)
         [\<lparr> priority = 0, weight = 0, port = 25565, target = ''a'' \<rparr>,
          \<lparr> priority = 0, weight = 100, port = 25566, target = ''b'' \<rparr>]
       = Some \<lparr> priority = 0, weight = 100, port = 25566, target = ''b'' \<rparr>
   \<and> pickSrvRecord 0
         [\<lparr> priority = 0, weight = 0, port = 25565, target = ''a'' \<rparr>,
          \<lparr> priority = 0, weight = 100, port = 25566, target = ''b'' \<rparr>]
       = Some \<lparr> priority = 0, weight = 0, port = 25565, target = ''a'' \<rparr>"
proof -
  let ?a = "\<lparr> priority = 0, weight = 0, port = 25565, target = ''a'' \<rparr>"
  let ?b = "\<lparr> priority = 0, weight = 100, port = 25566, target = ''b'' \<rparr>"
  have c: "candidatesOf [?a, ?b] = [?a, ?b]" by (simp add: candidatesOf_def)
  have t: "totalWeightOf [?a, ?b] = 100" by (simp add: totalWeightOf_def)
  have half: "pickSrvRecord (1 / 2) [?a, ?b] = Some ?b"
    by (simp add: pickSrvRecord_def c t)
  show ?thesis
    using weighted_draw_zero_weight [of "[?a, ?b]" "1 / 2"] c t half by simp
qed


section \<open>Properties of the inbound reader\<close>

lemma subarray_whole: "subarray buffer 0 (int (length buffer)) = buffer"
  by (simp add: subarray_def clampIndex_def)

lemma readStep_append:
  "readStep buffer (Some chunk) =
     (case decodeInt32 (buffer @ chunk) 0 of
        Inl e \<Rightarrow> Accumulating (buffer @ chunk)
      | Inr (packetLength, headerSize) \<Rightarrow>
          if int headerSize + packetLength \<le> int (length (buffer @ chunk))
          then Complete (subarray (buffer @ chunk) 0 (int headerSize + packetLength))
          else Accumulating (buffer @ chunk))"
  by (cases buffer) (simp_all add: readStep_def Let_def split: sum.splits prod.splits)

lemma readStep_error:
  "decodeInt32 (buffer @ chunk) 0 = Inl e \<Longrightarrow>
   readStep buffer (Some chunk) = Accumulating (buffer @ chunk)"
  by (simp add: readStep_append)

lemma length_encodeVarInt_le5: "length (encodeVarInt v) \<le> 5"
  unfolding encodeVarInt_def encodeInt32_def
  by (rule length_encodeUnsigned_le5) simp_all

text \<open>A proper prefix of the length VarInt does not decode.\<close>

lemma decodeInt32_header_prefix:
  assumes "j < length (encodeVarInt v)"
  shows "decodeInt32 (take j (encodeVarInt v)) 0 = Inl DecodeNeedMoreData"
proof -
  have "j \<le> 5" using assms length_encodeVarInt_le5 [of v] by simp
  then have "decodeBytes 0 (take j (encodeUnsigned (v mod 2 ^ 32))) = Inl DecodeNeedMoreData"
    using assms decodeBytes_truncated [of "v mod 2 ^ 32" j 0]
    by (simp add: encodeVarInt_def encodeInt32_def)
  then show ?thesis
    by (simp add: decodeInt32_def encodeVarInt_def encodeInt32_def)
qed

text \<open>
  While the buffer is a proper prefix of the packet the reader goes on; once it is the
  whole packet the reader returns it.
\<close>

lemma readStep_packet_prefix:
  assumes len: "length body < 2 ^ 31"
    and split: "buffer @ chunk @ rest = encodeVarInt (int (length body)) @ body"
  shows "readStep buffer (Some chunk) =
           (if rest = [] then Complete (buffer @ chunk) else Accumulating (buffer @ chunk))"
proof -
  let ?hdr = "encodeVarInt (int (length body))"
  define p where "p = buffer @ chunk"
  define n where "n = length p"
  have v: "- (2 ^ 31) \<le> int (length body)" "int (length body) < 2 ^ 31"
    using len by simp_all
  have split': "p @ rest = ?hdr @ body" using split by (simp add: p_def)
  have total: "n + length rest = length ?hdr + length body"
    using arg_cong [OF split', of length] by (simp add: n_def)
  have p: "p = take n ?hdr @ take (n - length ?hdr) body"
    using arg_cong [OF split', of "take n"] by (simp add: n_def)
  have step: "readStep buffer (Some chunk) =
     (case decodeInt32 p 0 of
        Inl e \<Rightarrow> Accumulating p
      | Inr (packetLength, headerSize) \<Rightarrow>
          if int headerSize + packetLength \<le> int n
          then Complete (subarray p 0 (int headerSize + packetLength))
          else Accumulating p)"
    unfolding p_def n_def by (rule readStep_append)
  have goal: "readStep buffer (Some chunk) = (if rest = [] then Complete p else Accumulating p)"
  proof (cases "n < length ?hdr")
    case True
    then have "p = take n ?hdr" using p by simp
    then have "decodeInt32 p 0 = Inl DecodeNeedMoreData"
      using decodeInt32_header_prefix [OF True] by simp
    moreover have "rest \<noteq> []" using True total by auto
    ultimately show ?thesis by (simp add: step)
  next
    case False
    then have "p = ?hdr @ take (n - length ?hdr) body" using p by simp
    then have dec: "decodeInt32 p 0 = Inr (int (length body), length ?hdr)"
      using decodeInt32_encodeVarInt_append [OF v, of "take (n - length ?hdr) body"]
      by simp
    show ?thesis
    proof (cases "rest = []")
      case True
      then have eq: "int (length ?hdr) + int (length body) = int n"
        using total by simp
      have "subarray p 0 (int n) = p" unfolding n_def by (rule subarray_whole)
      then show ?thesis
        using True eq by (simp add: step dec)
    next
      case False
      then have "0 < length rest" by simp
      with total have "n < length ?hdr + length body" by linarith
      then have "\<not> int (length ?hdr) + int (length body) \<le> int n"
        by linarith
      then show ?thesis
        using False by (simp add: step dec)
    qed
  qed
  then show ?thesis by (simp add: p_def)
qed

lemma readLoop_packet:
  assumes len: "length body < 2 ^ 31"
  shows "buffer @ concat chunks = encodeVarInt (int (length body)) @ body \<Longrightarrow>
         length buffer < length (encodeVarInt (int (length body)) @ body) \<Longrightarrow>
         readLoop buffer (map Some chunks) = Inr (encodeVarInt (int (length body)) @ body)"
proof (induction chunks arbitrary: buffer)
  case Nil
  then show ?case by simp
next
  case (Cons c cs)
  let ?packet = "encodeVarInt (int (length body)) @ body"
  from Cons.prems(1) have split: "buffer @ c @ concat cs = ?packet" by simp
  have step: "readStep buffer (Some c) =
                (if concat cs = [] then Complete (buffer @ c) else Accumulating (buffer @ c))"
    by (rule readStep_packet_prefix [OF len split])
  show ?case
  proof (cases "concat cs = []")
    case True
    with split have "buffer @ c = ?packet" by (simp del: concat_eq_Nil_conv)
    moreover have "readStep buffer (Some c) = Complete (buffer @ c)"
      using step True by (simp del: concat_eq_Nil_conv)
    ultimately show ?thesis by simp
  next
    case False
    have "length (buffer @ c) + length (concat cs) = length ?packet"
      using arg_cong [OF split, of length] by simp
    moreover have "0 < length (concat cs)" using False by simp
    ultimately have short: "length (buffer @ c) < length ?packet" by linarith
    have st: "readStep buffer (Some c) = Accumulating (buffer @ c)"
      using step False by (simp del: concat_eq_Nil_conv)
    have "(buffer @ c) @ concat cs = ?packet" using split by simp
    from Cons.IH [OF this short] st show ?thesis by simp
  qed
qed

lemma encodeVarInt_nonempty: "encodeVarInt v \<noteq> []"
  unfolding encodeVarInt_def encodeInt32_def
  by (subst encodeUnsigned.simps) simp

text \<open>
  C7. The bytes of a packet (the VarInt of the body's length, then the body), cut
  into chunks in any way, are reassembled by the reader into that packet, the same result
  as for the packet in one chunk; and a length decode that fails for lack of bytes leaves
  the reader accumulating.
\<close>

theorem readPacket_chunking:
  assumes "length body < 2 ^ 31"
    and "concat chunks = encodeVarInt (int (length body)) @ body"
  shows "readPacket (map Some chunks) = Inr (encodeVarInt (int (length body)) @ body)
       \<and> readPacket (map Some chunks)
           = readPacket [Some (encodeVarInt (int (length body)) @ body)]
       \<and> (\<forall>buffer chunk. decodeInt32 (buffer @ chunk) 0 = Inl DecodeNeedMoreData
            \<longrightarrow> readStep buffer (Some chunk) = Accumulating (buffer @ chunk))"
proof -
  let ?packet = "encodeVarInt (int (length body)) @ body"
  have ne: "0 < length ?packet" using encodeVarInt_nonempty [of "int (length body)"] by simp
  have split: "readPacket (map Some chunks) = Inr ?packet"
    unfolding readPacket_def
    using readLoop_packet [OF assms(1), of "[]" chunks] assms(2) ne by simp
  have whole: "readPacket [Some ?packet] = Inr ?packet"
    unfolding readPacket_def
    using readLoop_packet [OF assms(1), of "[]" "[?packet]"] ne by simp
  from split whole show ?thesis by (simp add: readStep_error)
qed

theorem readPacket_chunking_witness:
  "length [0x00, 0x01, 0x02 :: byte] < 2 ^ 31
   \<and> concat [[0x03], [0x00], [0x01], [0x02]] = encodeVarInt 3 @ [0x00, 0x01, 0x02 :: byte]
   \<and> readPacket [Some [0x03], Some [0x00], Some [0x01], Some [0x02]]
       = Inr [0x03, 0x00, 0x01, 0x02]
   \<and> readPacket [Some [0x03, 0x00, 0x01, 0x02]] = Inr [0x03, 0x00, 0x01, 0x02]
   \<and> decodeInt32 ([] @ [0x80 :: byte]) 0 = Inl DecodeNeedMoreData
   \<and> readStep [] (Some [0x80]) = Accumulating [0x80]"
proof -
  have e: "encodeVarInt 3 = [0x03]" by code_simp
  have d: "decodeInt32 ([] @ [0x80 :: byte]) 0 = Inl DecodeNeedMoreData" by code_simp
  have c: "concat [[0x03], [0x00], [0x01], [0x02]] = encodeVarInt 3 @ [0x00, 0x01, 0x02 :: byte]"
    by (simp add: e)
  show ?thesis
    using readPacket_chunking [of "[0x00, 0x01, 0x02]" "[[0x03], [0x00], [0x01], [0x02]]"] c d e
    by auto
qed


section \<open>Decode failures and the reader\<close>

lemma decodeBytes_all_continuation:
  "\<forall>b\<in>set bs. 128 \<le> uint b \<Longrightarrow> i + length bs \<le> 5 \<Longrightarrow>
   decodeBytes i bs = Inl DecodeNeedMoreData"
proof (induction bs arbitrary: i)
  case Nil
  then show ?case by simp
next
  case (Cons b bs)
  from Cons.prems have "decodeBytes (Suc i) bs = Inl DecodeNeedMoreData"
    by (intro Cons.IH) simp_all
  moreover from Cons.prems have "\<not> 5 \<le> i" "\<not> uint b < 128" by simp_all
  ultimately show ?case by simp
qed

lemma decodeBytes_overlong:
  "\<forall>b\<in>set (take (5 - i) bs). 128 \<le> uint b \<Longrightarrow> 5 < i + length bs \<Longrightarrow> i \<le> 5 \<Longrightarrow>
   decodeBytes i bs = Inl DecodeTooLong"
proof (induction bs arbitrary: i)
  case Nil
  then show ?case by simp
next
  case (Cons b bs)
  show ?case
  proof (cases "5 \<le> i")
    case True
    then show ?thesis by simp
  next
    case False
    then have "5 - i = Suc (5 - Suc i)" by simp
    then have t: "take (5 - i) (b # bs) = b # take (5 - Suc i) bs"
      by (simp only: take_Suc_Cons)
    from Cons.prems(1) have b: "\<not> uint b < 128"
      and rest: "\<forall>b\<in>set (take (5 - Suc i) bs). 128 \<le> uint b"
      unfolding t by simp_all
    from Cons.prems(2) have "5 < Suc i + length bs" by simp
    moreover from False have "Suc i \<le> 5" by simp
    ultimately have "decodeBytes (Suc i) bs = Inl DecodeTooLong"
      using rest by (intro Cons.IH)
    with False b show ?thesis by simp
  qed
qed

lemma decodeBytes_errors:
  "decodeBytes i bs = Inl e \<Longrightarrow> e = DecodeNeedMoreData \<or> e = DecodeTooLong"
  by (induction i bs rule: decodeBytes.induct) (auto split: if_splits sum.splits)

lemma readLoop_errors: "readLoop buffer reads = Inl e \<Longrightarrow> e = ConnectionClosed"
  by (induction reads arbitrary: buffer) (auto split: reader_state.splits)

text \<open>
  C4, as the spec states it: the reader would treat an overlong length prefix as fatal
  instead of accumulating. After a chunk of six continuation-flagged bytes, which the
  decoder rejects as too long, the reader is still accumulating; it reads the next chunk,
  and it ends with the connection-closed error when the stream ends.
\<close>

theorem overlong_prefix_counterexample:
  "decodeInt32 [0x80, 0x80, 0x80, 0x80, 0x80, 0x80] 0 = Inl DecodeTooLong
   \<and> readStep [] (Some [0x80, 0x80, 0x80, 0x80, 0x80, 0x80])
       = Accumulating [0x80, 0x80, 0x80, 0x80, 0x80, 0x80]
   \<and> readStep [0x80, 0x80, 0x80, 0x80, 0x80, 0x80] (Some [0x00])
       = Accumulating [0x80, 0x80, 0x80, 0x80, 0x80, 0x80, 0x00]
   \<and> readPacket [Some [0x80, 0x80, 0x80, 0x80, 0x80, 0x80], Some [0x00]]
       = Inl ConnectionClosed"
  by code_simp

text \<open>
  C4, amended: the decoder has two different failures, need-more-data for a buffer of at
  most five bytes that all carry the continuation flag, and too-long for a buffer whose
  first five bytes all carry it and that has a sixth; it has no other failure. The reader
  treats both alike: after any failure of the length decode it keeps accumulating, and the
  only error it ends with is the connection-closed error at the end of the stream.
\<close>

theorem decode_failures_and_reader:
  "DecodeNeedMoreData \<noteq> DecodeTooLong
   \<and> (length bs \<le> 5 \<and> (\<forall>b\<in>set bs. 128 \<le> uint b)
        \<longrightarrow> decodeInt32 bs 0 = Inl DecodeNeedMoreData)
   \<and> (5 < length bs \<and> (\<forall>b\<in>set (take 5 bs). 128 \<le> uint b)
        \<longrightarrow> decodeInt32 bs 0 = Inl DecodeTooLong)
   \<and> (decodeInt32 bs 0 = Inl e \<longrightarrow> e = DecodeNeedMoreData \<or> e = DecodeTooLong)
   \<and> (decodeInt32 (buffer @ chunk) 0 = Inl e
        \<longrightarrow> readStep buffer (Some chunk) = Accumulating (buffer @ chunk))
   \<and> (readPacket reads = Inl e' \<longrightarrow> e' = ConnectionClosed)"
proof -
  have short: "decodeInt32 bs 0 = Inl DecodeNeedMoreData"
    if "length bs \<le> 5" "\<forall>b\<in>set bs. 128 \<le> uint b"
    using decodeBytes_all_continuation [of bs 0] that by (simp add: decodeInt32_def)
  have long: "decodeInt32 bs 0 = Inl DecodeTooLong"
    if "5 < length bs" "\<forall>b\<in>set (take 5 bs). 128 \<le> uint b"
    using decodeBytes_overlong [of 0 bs] that by (simp add: decodeInt32_def)
  have only: "e = DecodeNeedMoreData \<or> e = DecodeTooLong" if "decodeInt32 bs 0 = Inl e"
    using that decodeBytes_errors [of 0 bs e]
    by (auto simp: decodeInt32_def split: sum.splits)
  have reader: "e' = ConnectionClosed" if "readPacket reads = Inl e'"
    using that readLoop_errors by (simp add: readPacket_def)
  from short long only reader readStep_error show ?thesis by blast
qed

theorem decode_failures_and_reader_witness:
  "decodeInt32 [0x80] 0 = Inl DecodeNeedMoreData
   \<and> readStep [] (Some [0x80]) = Accumulating [0x80]
   \<and> decodeInt32 [0x80, 0x80, 0x80, 0x80, 0x80, 0x00] 0 = Inl DecodeTooLong
   \<and> readStep [0x80, 0x80] (Some [0x80, 0x80, 0x80, 0x00])
       = Accumulating [0x80, 0x80, 0x80, 0x80, 0x80, 0x00]
   \<and> readPacket [Some [0x80, 0x80, 0x80, 0x80, 0x80, 0x00]] = Inl ConnectionClosed"
proof -
  have u: "uint (0x80 :: byte) = 128" by simp
  have r: "readPacket [Some [0x80, 0x80, 0x80, 0x80, 0x80, 0x00]] = Inl ConnectionClosed"
    by code_simp
  show ?thesis
    using decode_failures_and_reader
            [of "[0x80]" DecodeNeedMoreData "[]" "[0x80]"
                "[Some [0x80, 0x80, 0x80, 0x80, 0x80, 0x00]]" ConnectionClosed]
          decode_failures_and_reader
            [of "[0x80, 0x80, 0x80, 0x80, 0x80, 0x00]" DecodeTooLong "[0x80, 0x80]"
                "[0x80, 0x80, 0x80, 0x00]" "[]" ConnectionClosed]
          u r
    by simp
qed


section \<open>The resolver and the handshake after SRV resolution\<close>

lemma pickSrvRecord_Nil: "pickSrvRecord rnd [] = None"
  by (simp add: pickSrvRecord_def)

text \<open>
  C6. The resolver returns a value for every hostname and every exchange, never an
  exception; a failed request, an aborted (timed-out) request, a response that is not ok,
  a body that is not JSON or not of the declared shape, and an answer set with no valid
  SRV record all give the no-target result.
\<close>

theorem resolveMinecraftSrv_total:
  "(\<exists>r. resolveMinecraftSrv rnd dns hostname = Inr r)
   \<and> (dns (buildSrvQueryUrl hostname) = NetworkError
        \<or> dns (buildSrvQueryUrl hostname) = TimedOut
        \<or> (\<exists>body. dns (buildSrvQueryUrl hostname) = HttpResponse False body)
        \<or> dns (buildSrvQueryUrl hostname) = HttpResponse True MalformedJson
        \<or> dns (buildSrvQueryUrl hostname) = HttpResponse True IllTypedJson
        \<or> (\<exists>result. dns (buildSrvQueryUrl hostname) = HttpResponse True (JsonBody result)
              \<and> List.map_filter parseSrvRecord
                    (case dns_Answer result of None \<Rightarrow> [] | Some a \<Rightarrow> a) = [])
      \<longrightarrow> resolveMinecraftSrv rnd dns hostname = Inr None)"
proof -
  have total: "\<exists>r. resolveMinecraftSrv rnd dns hostname = Inr r"
    by (simp add: resolveMinecraftSrv_def split: sum.splits)
  have failed: "resolveMinecraftSrv rnd dns hostname = Inr None"
    if "dns (buildSrvQueryUrl hostname) = NetworkError
        \<or> dns (buildSrvQueryUrl hostname) = TimedOut
        \<or> (\<exists>body. dns (buildSrvQueryUrl hostname) = HttpResponse False body)
        \<or> dns (buildSrvQueryUrl hostname) = HttpResponse True MalformedJson
        \<or> dns (buildSrvQueryUrl hostname) = HttpResponse True IllTypedJson
        \<or> (\<exists>result. dns (buildSrvQueryUrl hostname) = HttpResponse True (JsonBody result)
              \<and> List.map_filter parseSrvRecord
                    (case dns_Answer result of None \<Rightarrow> [] | Some a \<Rightarrow> a) = [])"
    using that
    by (auto simp: resolveMinecraftSrv_def resolveTry_def Let_def pickSrvRecord_Nil)
  from total failed show ?thesis by blast
qed

theorem resolveMinecraftSrv_total_witness:
  "resolveMinecraftSrv 0 (\<lambda>q. NetworkError) ''play.example.com'' = Inr None
   \<and> resolveMinecraftSrv 0 (\<lambda>q. TimedOut) ''play.example.com'' = Inr None
   \<and> resolveMinecraftSrv 0 (\<lambda>q. HttpResponse False MalformedJson) ''play.example.com''
       = Inr None
   \<and> resolveMinecraftSrv 0 (\<lambda>q. HttpResponse True MalformedJson) ''play.example.com''
       = Inr None
   \<and> resolveMinecraftSrv 0 (\<lambda>q. HttpResponse True IllTypedJson) ''play.example.com''
       = Inr None
   \<and> resolveMinecraftSrv 0
         (\<lambda>q. HttpResponse True (JsonBody \<lparr> dns_Status = 3, dns_Answer = None \<rparr>))
         ''play.example.com'' = Inr None
   \<and> resolveMinecraftSrv 0
         (\<lambda>q. HttpResponse True
                 (JsonBody \<lparr> dns_Status = 0,
                            dns_Answer = Some [\<lparr> ans_name = q, ans_type = 33, ans_TTL = 300,
                                                 ans_data = ''0 5 0 backend.example.com.'' \<rparr>] \<rparr>))
         ''play.example.com'' = Inr None"
proof -
  have invalid: "List.map_filter parseSrvRecord
         [\<lparr> ans_name = buildSrvQueryUrl ''play.example.com'', ans_type = 33, ans_TTL = 300,
            ans_data = ''0 5 0 backend.example.com.'' \<rparr>] = []"
    by code_simp
  show ?thesis
    using resolveMinecraftSrv_total [of 0 "\<lambda>q. NetworkError" "''play.example.com''"]
      resolveMinecraftSrv_total [of 0 "\<lambda>q. TimedOut" "''play.example.com''"]
      resolveMinecraftSrv_total [of 0 "\<lambda>q. HttpResponse False MalformedJson" "''play.example.com''"]
      resolveMinecraftSrv_total [of 0 "\<lambda>q. HttpResponse True MalformedJson" "''play.example.com''"]
      resolveMinecraftSrv_total [of 0 "\<lambda>q. HttpResponse True IllTypedJson" "''play.example.com''"]
      resolveMinecraftSrv_total [of 0
        "\<lambda>q. HttpResponse True (JsonBody \<lparr> dns_Status = 3, dns_Answer = None \<rparr>)"
        "''play.example.com''"]
      resolveMinecraftSrv_total [of 0
        "\<lambda>q. HttpResponse True
                 (JsonBody \<lparr> dns_Status = 0,
                            dns_Answer = Some [\<lparr> ans_name = q, ans_type = 33, ans_TTL = 300,
                                                 ans_data = ''0 5 0 backend.example.com.'' \<rparr>] \<rparr>)"
        "''play.example.com''"]
      invalid
    by simp
qed

text \<open>A record that parses has a port in 1..65535; the selection returns a parsed record.\<close>

lemma parseSrvRecord_port:
  "parseSrvRecord answer = Some r \<Longrightarrow> 1 \<le> port r \<and> port r \<le> 65535"
  by (auto simp: parseSrvRecord_def Let_def split: if_splits option.splits)

lemma nthOpt_member: "nthOpt xs i = Some x \<Longrightarrow> x \<in> set xs"
  by (auto simp: nthOpt_def split: if_splits)

lemma pickSrvRecord_Some_member: "pickSrvRecord rnd records = Some r \<Longrightarrow> r \<in> set records"
proof -
  assume pick: "pickSrvRecord rnd records = Some r"
  then have "r \<in> set (candidatesOf records)"
    by (auto simp: pickSrvRecord_def Let_def
             split: if_splits option.splits dest: nthOpt_member walk_member)
  with candidatesOf_subset show ?thesis by blast
qed

lemma resolveMinecraftSrv_port:
  assumes "resolveMinecraftSrv rnd dns hostname = Inr (Some t)"
  shows "1 \<le> srv_port t \<and> srv_port t \<le> 65535"
proof -
  from assms obtain answers selection where
    pick: "pickSrvRecord rnd (List.map_filter parseSrvRecord answers) = Some selection"
    and t: "srv_port t = port selection"
    by (auto simp: resolveMinecraftSrv_def resolveTry_def Let_def pickSrvRecord_Nil
             split: sum.splits dns_exchange.splits if_splits json_body.splits option.splits)
  from pickSrvRecord_Some_member [OF pick]
  obtain answer where "parseSrvRecord answer = Some selection"
    by (auto simp: List.map_filter_def)
  from parseSrvRecord_port [OF this] t show ?thesis by simp
qed

lemma buildHandshakePacket_in_range:
  "0 \<le> p \<Longrightarrow> p \<le> 65535 \<Longrightarrow> \<exists>packet. buildHandshakePacket a p v = Inr packet"
  by (simp add: buildHandshakePacket_def writeUInt16BE_def)

text \<open>
  C1, as the spec states it: after a successful SRV resolution the handshake would carry
  the port the caller asked for. For the request of \<open>play.example.com\<close> with no port
  (so the port asked for is the default 25565) and the SRV answer
  \<open>0 5 25566 backend.example.com.\<close>, the connection goes to
  \<open>backend.example.com:25566\<close> and the handshake written carries the address
  \<open>play.example.com\<close> and the port bytes \<open>63 de\<close>, that is 25566: it is the handshake
  for port 25566 and not the one for port 25565.
\<close>

theorem handshake_port_counterexample:
  "fetch (\<lambda>payload. None :: unit option) 0 example_dns [] example_request =
     Pinged
       \<lparr> sock_hostname = ''backend.example.com'', sock_port = 25566,
         written =
           [[0x17, 0x00, 0xfd, 0x05, 0x10, 0x70, 0x6c, 0x61, 0x79, 0x2e, 0x65, 0x78, 0x61,
             0x6d, 0x70, 0x6c, 0x65, 0x2e, 0x63, 0x6f, 0x6d, 0x63, 0xde, 0x01],
            [0x01, 0x00]],
         writerLocked = False, readerLocked = False, closeCalls = 1 \<rparr>
       (Inl ConnectionClosed)
   \<and> buildHandshakePacket ''play.example.com'' 25566 765 =
       Inr [0x17, 0x00, 0xfd, 0x05, 0x10, 0x70, 0x6c, 0x61, 0x79, 0x2e, 0x65, 0x78, 0x61,
            0x6d, 0x70, 0x6c, 0x65, 0x2e, 0x63, 0x6f, 0x6d, 0x63, 0xde, 0x01]
   \<and> buildHandshakePacket ''play.example.com'' 25565 765 =
       Inr [0x17, 0x00, 0xfd, 0x05, 0x10, 0x70, 0x6c, 0x61, 0x79, 0x2e, 0x65, 0x78, 0x61,
            0x6d, 0x70, 0x6c, 0x65, 0x2e, 0x63, 0x6f, 0x6d, 0x63, 0xdd, 0x01]"
  by code_simp

text \<open>
  C1, amended: for every request without a port whose SRV resolution succeeds, the
  connection goes to the SRV-resolved hostname and port, and the handshake packet written
  first is the one built from the caller-supplied hostname as the address and from the
  SRV-resolved port as the port.
\<close>

theorem handshake_after_srv:
  assumes "req_hostname request = Some hostname" and "hostname \<noteq> []"
    and "parsePort (req_port request) = Inr parsedPort"
    and "isBlank (req_port request)"
    and "parseProtocol (req_protocolVersion request) = Inr parsedProtocol"
    and "resolveMinecraftSrv rnd dns hostname = Inr (Some t)"
  shows "\<exists>s r handshake.
           fetch jsonParse rnd dns reads request = Pinged s r
         \<and> sock_hostname s = srv_hostname t \<and> sock_port s = srv_port t
         \<and> written s = [handshake, buildStatusRequestPacket]
         \<and> buildHandshakePacket hostname (srv_port t)
              (case parsedProtocol of None \<Rightarrow> DEFAULT_PROTOCOL_VERSION | Some v \<Rightarrow> v)
             = Inr handshake"
proof -
  let ?pv = "case parsedProtocol of None \<Rightarrow> DEFAULT_PROTOCOL_VERSION | Some v \<Rightarrow> v"
  from resolveMinecraftSrv_port [OF assms(6)]
  have "0 \<le> srv_port t" "srv_port t \<le> 65535" by simp_all
  from buildHandshakePacket_in_range [OF this]
  obtain handshake where hs: "buildHandshakePacket hostname (srv_port t) ?pv = Inr handshake"
    by blast
  show ?thesis
    using assms hs
    by (auto simp: fetch_def getServerStatus_def pingTry_def Let_def connect_def getLocks_def
          writePacket_def releaseAndClose_def split: sum.splits prod.splits)
qed

theorem handshake_after_srv_witness:
  "req_hostname example_request = Some ''play.example.com''
   \<and> parsePort (req_port example_request) = Inr 25565
   \<and> isBlank (req_port example_request)
   \<and> parseProtocol (req_protocolVersion example_request) = Inr None
   \<and> resolveMinecraftSrv 0 example_dns ''play.example.com''
       = Inr (Some \<lparr> srv_hostname = ''backend.example.com'', srv_port = 25566 \<rparr>)
   \<and> (\<exists>s r handshake.
         fetch (\<lambda>payload. None :: unit option) 0 example_dns [] example_request = Pinged s r
       \<and> sock_hostname s = ''backend.example.com'' \<and> sock_port s = 25566
       \<and> written s = [handshake, buildStatusRequestPacket]
       \<and> buildHandshakePacket ''play.example.com'' 25566 DEFAULT_PROTOCOL_VERSION
           = Inr handshake)"
proof -
  have h: "req_hostname example_request = Some ''play.example.com''"
    by (simp add: example_request_def)
  have p: "parsePort (req_port example_request) = Inr 25565"
    by (simp add: example_request_def parsePort_def)
  have b: "isBlank (req_port example_request)"
    by (simp add: example_request_def isBlank_def)
  have v: "parseProtocol (req_protocolVersion example_request) = Inr None"
    by (simp add: example_request_def parseProtocol_def)
  have r: "resolveMinecraftSrv 0 example_dns ''play.example.com''
       = Inr (Some \<lparr> srv_hostname = ''backend.example.com'', srv_port = 25566 \<rparr>)"
    by code_simp
  have n: "''play.example.com'' \<noteq> []" by simp
  show ?thesis
    using handshake_after_srv [OF h n p b v r, of "\<lambda>payload. None :: unit option" "[]"] h p b v r
    by simp
qed

text \<open>
  Whatever the ping body does, its \<open>finally\<close> block has released both locks and called
  \<open>close\<close> once when it ends.
\<close>

lemma getServerStatus_cleanup:
  "closeCalls (fst (getServerStatus jsonParse opts reads)) = 1
   \<and> \<not> writerLocked (fst (getServerStatus jsonParse opts reads))
   \<and> \<not> readerLocked (fst (getServerStatus jsonParse opts reads))"
  by (simp add: getServerStatus_def pingTry_def Let_def connect_def getLocks_def
        writePacket_def releaseAndClose_def split: sum.splits prod.splits)


end
